theory Spec2Isabelle
  imports Complex_Main
begin

section \<open>Data model\<close>

text \<open>
  \<open>state_type\<close> is a vector of floating-point numbers, \<open>MKL_INT\<close> the index type of the
  sparse backend. Both are declared outside the files at hand. The numbers are taken as
  reals (rounding is not modelled). \<open>MKL_INT\<close> is a signed integer of fixed width: 32
  bits, or 64 bits in the builds that define \<open>MKL_ILP64\<close>. Its values are carried as
  integers, the build switch is an argument, and an arithmetic operation whose result
  leaves the range has no defined behaviour: the model makes it an error value.
\<close>

type_synonym state_type = "real list"

type_synonym MKL_INT = int

definition MKL_INT_bits :: "bool \<Rightarrow> nat" where
  "MKL_INT_bits MKL_ILP64 = (if MKL_ILP64 then 64 else 32)"

definition MKL_INT_MAX :: "bool \<Rightarrow> int" where
  "MKL_INT_MAX MKL_ILP64 = 2 ^ (MKL_INT_bits MKL_ILP64 - 1) - 1"

definition fits :: "bool \<Rightarrow> int \<Rightarrow> bool" where
  "fits MKL_ILP64 v \<longleftrightarrow> - MKL_INT_MAX MKL_ILP64 - 1 \<le> v \<and> v \<le> MKL_INT_MAX MKL_ILP64"

text \<open>
  The cast \<open>(MKL_INT)(x.size())\<close> of an unsigned size: the value modulo two to the
  width, read as a signed number.
\<close>

definition to_MKL_INT :: "bool \<Rightarrow> nat \<Rightarrow> MKL_INT" where
  "to_MKL_INT MKL_ILP64 n = signed_take_bit (MKL_INT_bits MKL_ILP64 - 1) (int n)"

text \<open>The sparse matrix holder: three arrays, values, row pointers, column indices.\<close>

record sparse_matrix_holder =
  A :: "real list"
  ia :: "MKL_INT list"
  ja :: "MKL_INT list"

text \<open>
  Reading or writing a vector outside its bounds with \<open>operator[]\<close> has no defined
  behaviour, and neither has signed arithmetic that overflows; the model makes each an
  error value.
\<close>

datatype error = OutOfRange | Overflow

text \<open>\<open>std::vector::resize\<close>: truncates, or pads with value-initialised elements.\<close>

definition resize :: "nat \<Rightarrow> 'a::zero list \<Rightarrow> 'a list" where
  "resize n xs = take n xs @ replicate (n - length xs) 0"

text \<open>\<open>std::vector::push_back\<close>.\<close>

definition push_back :: "'a \<Rightarrow> 'a list \<Rightarrow> 'a list" where
  "push_back v xs = xs @ [v]"

text \<open>
  How the three arrays are read as a matrix: row \<open>i\<close> owns the positions
  \<open>ia[i] ..< ia[i+1]\<close> of \<open>ja\<close> and \<open>A\<close>.
\<close>

definition csr_row_cols :: "sparse_matrix_holder \<Rightarrow> nat \<Rightarrow> MKL_INT list" where
  "csr_row_cols J i =
    (let b = nat (ia J ! i); e = nat (ia J ! Suc i) in take (e - b) (drop b (ja J)))"

definition csr_row :: "sparse_matrix_holder \<Rightarrow> nat \<Rightarrow> (MKL_INT \<times> real) list" where
  "csr_row J i =
    (let b = nat (ia J ! i); e = nat (ia J ! Suc i)
     in zip (take (e - b) (drop b (ja J))) (take (e - b) (drop b (A J))))"

definition csr_entry :: "sparse_matrix_holder \<Rightarrow> nat \<Rightarrow> nat \<Rightarrow> real" where
  "csr_entry J i j = sum_list (map snd (filter (\<lambda>cv. fst cv = int j) (csr_row J i)))"

definition nnz :: "sparse_matrix_holder \<Rightarrow> nat" where
  "nnz J = length (A J)"

section \<open>The Robertson example\<close>

text \<open>\<open>MyMassMatrix::operator()\<close>: resizes the three arrays and assigns every element.\<close>

definition MyMassMatrix :: "sparse_matrix_holder \<Rightarrow> sparse_matrix_holder" where
  "MyMassMatrix M =
    (let M1 = M\<lparr>A := resize 3 (A M)\<rparr>;
         M2 = M1\<lparr>ja := resize 3 (ja M1)\<rparr>;
         M3 = M2\<lparr>ia := resize 4 (ia M2)\<rparr>;
         M4 = M3\<lparr>A := (A M3)[0 := 1, 1 := 1, 2 := 0]\<rparr>;
         M5 = M4\<lparr>ja := (ja M4)[0 := 0, 1 := 1, 2 := 2]\<rparr>
     in M5\<lparr>ia := (ia M5)[0 := 0, 1 := 1, 2 := 2, 3 := 3]\<rparr>)"

text \<open>
  \<open>MyRHS::operator()\<close>: writes the three components of \<open>f\<close> from \<open>x\<close>; the time is
  not used. The vectors are indexed up to position 2.
\<close>

definition MyRHS :: "state_type \<Rightarrow> state_type \<Rightarrow> real \<Rightarrow> error + state_type" where
  "MyRHS x f t =
    (if length x < 3 \<or> length f < 3 then Inl OutOfRange
     else Inr (f[0 := - 0.04 * x ! 0 + 10000 * x ! 1 * x ! 2,
                 1 := 0.04 * x ! 0 - 10000 * x ! 1 * x ! 2 - 30000000 * x ! 1 * x ! 1,
                 2 := x ! 0 + x ! 1 + x ! 2 - 1]))"

text \<open>
  \<open>MyJacobian::operator()\<close> of the Robertson example: a full 3 by 3 matrix in the
  three-array format; reads \<open>x[1]\<close> and \<open>x[2]\<close>.
\<close>

definition MyJacobian ::
  "sparse_matrix_holder \<Rightarrow> state_type \<Rightarrow> real \<Rightarrow> error + sparse_matrix_holder" where
  "MyJacobian J x t =
    (if length x < 3 then Inl OutOfRange
     else
       (let J1 = J\<lparr>A := resize 9 (A J)\<rparr>;
            J2 = J1\<lparr>ja := resize 9 (ja J1)\<rparr>;
            J3 = J2\<lparr>ia := resize 4 (ia J2)\<rparr>;
            J4 = J3\<lparr>A := (A J3)[0 := - 0.04,
                                1 := 10000 * x ! 2,
                                2 := 10000 * x ! 1,
                                3 := 0.04,
                                4 := - 10000 * x ! 2 - 60000000 * x ! 1,
                                5 := - 10000 * x ! 1,
                                6 := 1,
                                7 := 1,
                                8 := 1]\<rparr>;
            J5 = J4\<lparr>ja := (ja J4)[0 := 0, 1 := 1, 2 := 2, 3 := 0, 4 := 1, 5 := 2,
                                  6 := 0, 7 := 1, 8 := 2]\<rparr>
        in Inr (J5\<lparr>ia := (ia J5)[0 := 0, 1 := 3, 2 := 6, 3 := 9]\<rparr>)))"

section \<open>The perovskite example: analytic Jacobian\<close>

text \<open>
  The parameter structure \<open>m_p\<close> of the perovskite example; the Jacobian reads the
  number of grid points \<open>N\<close>, the inverse grid step \<open>invh\<close> and \<open>lambda\<close>.
\<close>

record MyParams =
  N :: MKL_INT
  invh :: real
  lambda :: real

text \<open>\<open>x[k]\<close> for a signed index, and whether the index is inside the vector.\<close>

definition xat :: "state_type \<Rightarrow> MKL_INT \<Rightarrow> real" where
  "xat x k = x ! nat k"

definition in_range :: "state_type \<Rightarrow> MKL_INT \<Rightarrow> bool" where
  "in_range x k \<longleftrightarrow> 0 \<le> k \<and> k < int (length x)"

text \<open>One \<open>J.ja.push_back(col); J.A.push_back(v);\<close> pair.\<close>

definition push_entry :: "MKL_INT \<Rightarrow> real \<Rightarrow> sparse_matrix_holder \<Rightarrow> sparse_matrix_holder" where
  "push_entry col v J = J\<lparr>A := push_back v (A J), ja := push_back col (ja J)\<rparr>"

text \<open>
  What a piece of the loop body needs to be defined: the \<open>MKL_INT\<close> values it
  computes must fit the type, and the positions of \<open>x\<close> it reads must be inside \<open>x\<close>.
\<close>

definition checked ::
  "bool \<Rightarrow> state_type \<Rightarrow> MKL_INT list \<Rightarrow> MKL_INT list \<Rightarrow> error + 'a \<Rightarrow> error + 'a" where
  "checked MKL_ILP64 x computed reads k =
    (if \<not> list_all (fits MKL_ILP64) computed then Inl Overflow
     else if \<not> list_all (in_range x) reads then Inl OutOfRange
     else k)"

text \<open>
  The body of the loop over the rows, for row \<open>i\<close>: the row pointer is pushed, then the
  entries of the row, branch by branch as in the source; \<open>c\<close> counts the entries so far.
  The conditions of the branches are evaluated in the order of the source, so that
  \<open>N-1\<close> is computed for every row but the first and \<open>2*N-1\<close> only for the rows
  beyond \<open>N\<close>.
\<close>

definition jac_row ::
  "bool \<Rightarrow> MyParams \<Rightarrow> state_type \<Rightarrow> MKL_INT \<Rightarrow> sparse_matrix_holder \<times> MKL_INT
    \<Rightarrow> error + sparse_matrix_holder \<times> MKL_INT" where
  "jac_row MKL_ILP64 p x i s =
    (let n = N p;
         invh2 = invh p * invh p;
         invlam2 = 1 / (lambda p * lambda p);
         c = snd s;
         J = (fst s)\<lparr>ia := push_back c (ia (fst s))\<rparr>
     in
       if i = 0 then
         checked MKL_ILP64 x [n + 1, c + 4] [n + 1, n, 0, 1]
           (Inr (push_entry (n + 1) (0.5 * (xat x 0 + xat x 1) * invh2)
                (push_entry n (- 0.5 * (xat x 0 + xat x 1) * invh2)
                (push_entry 1 ((1 + 0.5 * (xat x (n + 1) - xat x n)) * invh2)
                (push_entry 0 ((- 1 + 0.5 * (xat x (n + 1) - xat x n)) * invh2) J))),
                 c + 4))
       else checked MKL_ILP64 x [n - 1] []
        (if i < n - 1 then
           checked MKL_ILP64 x [i - 1, i + 1, n + i, n + i - 1, n + i + 1, c + 6]
               [n + i, n + i - 1, n + i + 1, i, i - 1, i + 1]
             (Inr (push_entry (n + i + 1) (0.5 * (xat x (i + 1) + xat x i) * invh2)
                  (push_entry (n + i) (- 0.5 * (xat x (i + 1) + 2 * xat x i + xat x (i - 1)) * invh2)
                  (push_entry (n + i - 1) (0.5 * (xat x i + xat x (i - 1)) * invh2)
                  (push_entry (i + 1) ((1 + 0.5 * (xat x (n + i + 1) - xat x (n + i))) * invh2)
                  (push_entry i
                     ((- 2 + 0.5 * (xat x (n + i + 1) - 2 * xat x (n + i) + xat x (n + i - 1))) * invh2)
                  (push_entry (i - 1) ((1 - 0.5 * (xat x (n + i) - xat x (n + i - 1))) * invh2) J))))),
                   c + 6))
         else if i = n - 1 then
           checked MKL_ILP64 x [i - 1, 2 * n, 2 * n - 1, 2 * n - 2, n - 2, n + i, n + i - 1, c + 4]
               [2 * n - 1, 2 * n - 2, n - 1, n - 2]
             (Inr (push_entry (n + i) (- 0.5 * (xat x (n - 1) + xat x (n - 2)) * invh2)
                  (push_entry (n + i - 1) (0.5 * (xat x (n - 1) + xat x (n - 2)) * invh2)
                  (push_entry i ((- 1 - 0.5 * (xat x (2 * n - 1) - xat x (2 * n - 2))) * invh2)
                  (push_entry (i - 1) ((1 - 0.5 * (xat x (2 * n - 1) - xat x (2 * n - 2))) * invh2) J))),
                   c + 4))
         else if i = n then
           checked MKL_ILP64 x [c + 1] [] (Inr (push_entry n 1 J, c + 1))
         else checked MKL_ILP64 x [2 * n, 2 * n - 1] []
          (if i < 2 * n - 1 then
             checked MKL_ILP64 x [i - n, i - 1, i + 1, c + 4] []
               (Inr (push_entry (i + 1) invh2
                    (push_entry i (- 2 * invh2)
                    (push_entry (i - 1) invh2
                    (push_entry (i - n) invlam2 J))),
                     c + 4))
           else
             checked MKL_ILP64 x [c + 1] [] (Inr (push_entry (2 * n - 1) 1 J, c + 1)))))"

text \<open>The loop \<open>for(i = 0; i < size; i++)\<close>, over the list of its indices.\<close>

fun jac_loop ::
  "bool \<Rightarrow> MyParams \<Rightarrow> state_type \<Rightarrow> MKL_INT list \<Rightarrow> sparse_matrix_holder \<times> MKL_INT
    \<Rightarrow> error + sparse_matrix_holder \<times> MKL_INT" where
  "jac_loop MKL_ILP64 p x [] s = Inr s"
| "jac_loop MKL_ILP64 p x (i # rest) s =
    (case jac_row MKL_ILP64 p x i s of
       Inl e \<Rightarrow> Inl e
     | Inr s' \<Rightarrow> jac_loop MKL_ILP64 p x rest s')"

text \<open>
  \<open>MyJacobian::operator()\<close> of the perovskite example: \<open>sz\<close> is the size of \<open>x\<close>
  cast to \<open>MKL_INT\<close>; the loop runs from \<open>c = 0\<close> over the rows \<open>0 ..< sz\<close>, then
  the closing row pointer is pushed. The arrays of the holder are only appended to.
\<close>

definition perovskite_MyJacobian ::
  "bool \<Rightarrow> MyParams \<Rightarrow> sparse_matrix_holder \<Rightarrow> state_type \<Rightarrow> real
    \<Rightarrow> error + sparse_matrix_holder" where
  "perovskite_MyJacobian MKL_ILP64 p J x t =
    (let sz = to_MKL_INT MKL_ILP64 (length x)
     in case jac_loop MKL_ILP64 p x (map int [0 ..< nat sz]) (J, 0) of
          Inl e \<Rightarrow> Inl e
        | Inr s \<Rightarrow> Inr ((fst s)\<lparr>ia := push_back (snd s) (ia (fst s))\<rparr>))"

definition empty_holder :: sparse_matrix_holder where
  "empty_holder = \<lparr>A = [], ia = [], ja = []\<rparr>"

section \<open>The solver class\<close>

text \<open>
  The callbacks of \<open>solver.h\<close>: the right-hand side writes \<open>f\<close> from \<open>x\<close> and
  \<open>t\<close>, the Jacobian fills a holder from \<open>x\<close> and \<open>t\<close>, the mass matrix of
  \<open>mass_matrix.h\<close> fills a holder and receives nothing else.
\<close>

type_synonym RHS = "state_type \<Rightarrow> state_type \<Rightarrow> real \<Rightarrow> error + state_type"

type_synonym Jacobian = "sparse_matrix_holder \<Rightarrow> state_type \<Rightarrow> real \<Rightarrow> error + sparse_matrix_holder"

type_synonym MassMatrix = "sparse_matrix_holder \<Rightarrow> sparse_matrix_holder"

text \<open>
  \<open>Solver::observer\<close> as \<open>solver.h\<close> defines it: it receives the object, the vector
  by reference and the time, and returns at once. The model returns the object and the
  vector as the call leaves them.
\<close>

definition observer :: "'s \<Rightarrow> state_type \<Rightarrow> real \<Rightarrow> 's \<times> state_type" where
  "observer obj x t = (obj, x)"

text \<open>
  Modelled from the spec: the options record of \<open>solver_options.h\<close>, which is not among
  the sources. The fields are the recognised options of the configuration table.
\<close>

record SolverOptions =
  dt_init :: real
  dt_min :: real
  dt_max :: real
  bdf_order :: nat
  atol :: real
  rtol :: real
  max_Newton_iter :: nat
  time_stepping :: nat
  dt_increase_threshold :: nat
  dt_increase_factor :: real
  dt_decrease_factor :: real
  fd_tol :: real
  verbosity :: nat
  t0 :: real

text \<open>
  Modelled from the spec: the defaults that the constructor of the options record sets
  (\<open>solver_options.h\<close> is not among the sources). The spec gives \<open>t0 = 0\<close>; the
  other defaults are those of the argument.
\<close>

definition SolverOptions_default :: "SolverOptions \<Rightarrow> SolverOptions" where
  "SolverOptions_default rest = rest\<lparr>t0 := 0\<rparr>"

text \<open>
  Modelled from the spec: the signals of the Newton iterator to the step controller (the
  Newton iterator is in \<open>solver.cpp\<close>, not among the sources).
\<close>

datatype signal = converged_easily | converged | slow | failed | singular

text \<open>
  Modelled from the spec: the failure categories that the exit codes of the spec encode
  (no such codes are declared in the sources).
\<close>

datatype failure = Step_underflow | Singular_system | Non_finite_state | Newton_divergence

text \<open>
  Modelled from the spec: how a solve ends: \<open>t1\<close> is reached, the solve is aborted in
  one of the categories, or a programmer error is reported at entry (the solve is in
  \<open>solver.cpp\<close>, not among the sources).
\<close>

datatype outcome = Reached | Aborted failure | Programmer_error

text \<open>
  Modelled from the spec: what happens during a solve, in order (the mass matrix is
  produced, a step is committed, the observer is invoked, a step is rejected); kept to
  state the ordering guarantees.
\<close>

datatype event =
  Mass_evaluated sparse_matrix_holder
| Committed real state_type
| Observed real state_type
| Rejected real

text \<open>
  Modelled from the spec: the parts of the solver object that are in \<open>solver.cpp\<close> and
  \<open>time_integrator.h\<close>, neither among the sources. They are the Newton iterator with its
  linear solver (\<open>m_newton\<close>, from the callbacks, the cached mass matrix, the history, the
  order, the step and the new time to a signal and an iterate), the step-size rule of the
  controller (\<open>m_next_dt\<close>, from the signal, the count of consecutive easy steps and the
  step) and the rejection budget. The four references and the two private counters are
  those of \<open>solver.h\<close> (no caller can read the counters, and the model leaves them as
  they are), and so is the observer slot: \<open>m_observer = None\<close> stands for a solver
  without observer, \<open>m_self\<close> for the members of a derived class that an overriding
  observer may use.
\<close>

record 's Solver =
  m_rhs :: RHS
  m_jac :: Jacobian
  m_mass :: MassMatrix
  m_opt :: SolverOptions
  m_steps :: nat
  m_calls :: nat
  m_observer :: "('s \<Rightarrow> state_type \<Rightarrow> real \<Rightarrow> 's \<times> state_type) option"
  m_self :: 's
  m_newton :: "RHS \<Rightarrow> Jacobian \<Rightarrow> sparse_matrix_holder \<Rightarrow> (real \<times> state_type) list
                \<Rightarrow> nat \<Rightarrow> real \<Rightarrow> real \<Rightarrow> signal \<times> state_type"
  m_next_dt :: "signal \<Rightarrow> nat \<Rightarrow> real \<Rightarrow> real"
  m_max_rejections :: nat

text \<open>
  Modelled from the spec: the state of the time integrator, that is the step state
  \<open>(t_n, dt_n, k_n)\<close>, the vector, the history ring (newest first), the counters, and
  the members of the derived class.
\<close>

record 's step_state =
  t_n :: real
  dt_n :: real
  k_n :: nat
  x_n :: state_type
  history :: "(real \<times> state_type) list"
  easy :: nat
  steps :: nat
  rejections :: nat
  last_rejection :: signal
  self :: 's

text \<open>
  Modelled from the spec: one attempted step, after steps 1 to 6 of the time integrator
  and the policy of the step controller. The step is clipped so that the last one ends at
  \<open>t1\<close> exactly. On \<open>failed\<close> or \<open>singular\<close> the step is rejected: the vector and the
  time stay, the step shrinks, the order drops by one if it was above 1. Otherwise the
  step is accepted: the state is committed, the history shifted, the observer (if any)
  invoked with the new vector and time, and the order ramps by one up to \<open>bdf_order\<close>.
  The observer has inputs only (section 6 of the spec: input \<open>x\<close> and \<open>t\<close>, return
  value ignored; it is a notification after the step): the integrator takes back from the
  invocation the members of the derived class, which are the user's, and goes on from the
  vector it committed, whatever the observer did to its argument.
\<close>

definition attempt :: "'s Solver \<Rightarrow> sparse_matrix_holder \<Rightarrow> real \<Rightarrow> 's step_state
    \<Rightarrow> 's step_state \<times> event list" where
  "attempt S M t1 s =
    (let opt = m_opt S;
         final = (t1 - t_n s \<le> dt_n s);
         dt = (if final then t1 - t_n s else dt_n s);
         t' = (if final then t1 else t_n s + dt_n s);
         r = m_newton S (m_rhs S) (m_jac S) M (history s) (k_n s) dt t'
     in
       if fst r = failed \<or> fst r = singular then
         (s\<lparr>dt_n := min (dt_max opt) (m_next_dt S (fst r) 0 (dt_n s)),
            k_n := (if 1 < k_n s then k_n s - 1 else k_n s),
            easy := 0,
            rejections := Suc (rejections s),
            last_rejection := fst r\<rparr>,
          [Rejected t'])
       else
         (let easy' = (if fst r = converged_easily then Suc (easy s) else 0);
              k' = min (bdf_order opt) (Suc (k_n s));
              s1 = s\<lparr>t_n := t',
                      dt_n := min (dt_max opt) (m_next_dt S (fst r) easy' dt),
                      k_n := k',
                      x_n := snd r,
                      history := take k' ((t', snd r) # history s),
                      easy := easy',
                      steps := Suc (steps s)\<rparr>
          in case m_observer S of
               None \<Rightarrow> (s1, [Committed t' (snd r)])
             | Some obs \<Rightarrow>
                 (let ob = obs (self s1) (x_n s1) (t_n s1)
                  in (s1\<lparr>self := fst ob\<rparr>,
                      [Committed t' (snd r), Observed t' (snd r)]))))"

text \<open>
  Modelled from the spec: the loop of the solve. It ends when \<open>t1\<close> is reached, when the
  step falls below \<open>dt_min\<close>, or when the rejections exceed the budget (the category is
  that of the last rejection). The first argument bounds the number of attempts; \<open>None\<close>
  is a loop that has not ended within the bound.
\<close>

fun integrate :: "nat \<Rightarrow> 's Solver \<Rightarrow> sparse_matrix_holder \<Rightarrow> real
    \<Rightarrow> 's step_state \<times> event list \<Rightarrow> (outcome \<times> 's step_state \<times> event list) option" where
  "integrate 0 S M t1 st = None"
| "integrate (Suc fuel) S M t1 st =
    (let s = fst st in
     if t1 \<le> t_n s then Some (Reached, st)
     else if dt_n s < dt_min (m_opt S) then Some (Aborted Step_underflow, st)
     else if m_max_rejections S < rejections s then
       Some (Aborted (if last_rejection s = singular then Singular_system else Newton_divergence), st)
     else
       (let a = attempt S M t1 s in integrate fuel S M t1 (fst a, snd st @ snd a)))"

text \<open>
  Modelled from the spec: the state at the start of a solve. The time is \<open>t0\<close> of the
  options, the step \<open>dt_init\<close>, the order 1, and the history holds the initial vector.
\<close>

definition initial_state :: "'s Solver \<Rightarrow> state_type \<Rightarrow> 's step_state" where
  "initial_state S x =
    \<lparr>t_n = t0 (m_opt S), dt_n = dt_init (m_opt S), k_n = 1, x_n = x,
     history = [(t0 (m_opt S), x)], easy = 0, steps = 0, rejections = 0,
     last_rejection = failed, self = m_self S\<rparr>"

text \<open>
  Modelled from the spec: a solve. Programmer errors (an order outside 1 to 6, a negative
  tolerance) are reported before any integration; then the mass matrix is produced, once,
  and the loop runs with it.
\<close>

definition solve :: "nat \<Rightarrow> 's Solver \<Rightarrow> state_type \<Rightarrow> real
    \<Rightarrow> (outcome \<times> 's step_state \<times> event list) option" where
  "solve fuel S x t1 =
    (let opt = m_opt S in
     if bdf_order opt < 1 \<or> 6 < bdf_order opt \<or> atol opt < 0 \<or> rtol opt < 0 then
       Some (Programmer_error, initial_state S x, [])
     else
       (let M = m_mass S empty_holder
        in integrate fuel S M t1 (initial_state S x, [Mass_evaluated M])))"





text \<open>Reading the event list.\<close>

fun observed :: "event list \<Rightarrow> (real \<times> state_type) list" where
  "observed [] = []"
| "observed (Observed t x # es) = (t, x) # observed es"
| "observed (e # es) = observed es"

fun committed :: "event list \<Rightarrow> (real \<times> state_type) list" where
  "committed [] = []"
| "committed (Committed t x # es) = (t, x) # committed es"
| "committed (e # es) = committed es"

fun rejected :: "event list \<Rightarrow> real list" where
  "rejected [] = []"
| "rejected (Rejected t # es) = t # rejected es"
| "rejected (e # es) = rejected es"

fun mass_evaluations :: "event list \<Rightarrow> sparse_matrix_holder list" where
  "mass_evaluations [] = []"
| "mass_evaluations (Mass_evaluated M # es) = M # mass_evaluations es"
| "mass_evaluations (e # es) = mass_evaluations es"

text \<open>
  Every observer invocation comes directly after the commit of the same vector and time.
\<close>

fun observed_after_commit :: "event list \<Rightarrow> bool" where
  "observed_after_commit [] = True"
| "observed_after_commit (Observed t x # es) = False"
| "observed_after_commit (Committed t x # Observed t' x' # es) =
     (t' = t \<and> x' = x \<and> observed_after_commit es)"
| "observed_after_commit (e # es) = observed_after_commit es"

text \<open>The event list without the observer invocations.\<close>

fun drop_observed :: "event list \<Rightarrow> event list" where
  "drop_observed [] = []"
| "drop_observed (Observed t x # es) = drop_observed es"
| "drop_observed (e # es) = e # drop_observed es"

section \<open>Auxiliary definitions for the proofs\<close>

text \<open>
  The column indices that the perovskite Jacobian writes into row \<open>i\<close> for \<open>N = n\<close>,
  and the position in \<open>ja\<close> at which row \<open>k\<close> starts.
\<close>

definition row_cols :: "MKL_INT \<Rightarrow> MKL_INT \<Rightarrow> MKL_INT list" where
  "row_cols n i =
    (if i = 0 then [0, 1, n, n + 1]
     else if i < n - 1 then [i - 1, i, i + 1, n + i - 1, n + i, n + i + 1]
     else if i = n - 1 then [i - 1, i, n + i - 1, n + i]
     else if i = n then [n]
     else if i < 2 * n - 1 then [i - n, i - 1, i, i + 1]
     else [2 * n - 1])"

fun row_start :: "MKL_INT \<Rightarrow> nat \<Rightarrow> MKL_INT" where
  "row_start n 0 = 0"
| "row_start n (Suc k) = row_start n k + int (length (row_cols n (int k)))"

text \<open>The times of the attempted steps, accepted or rejected, in order.\<close>

fun attempt_times :: "event list \<Rightarrow> real list" where
  "attempt_times [] = []"
| "attempt_times (Committed t x # es) = t # attempt_times es"
| "attempt_times (Rejected t # es) = t # attempt_times es"
| "attempt_times (e # es) = attempt_times es"

text \<open>What holds of the state and the events of a solve after every attempt.\<close>

definition trace_inv :: "'s Solver \<Rightarrow> real \<Rightarrow> 's step_state \<times> event list \<Rightarrow> bool" where
  "trace_inv S t1 st \<longleftrightarrow>
     (m_observer S \<noteq> None \<longrightarrow> observed (snd st) = committed (snd st))
   \<and> (m_observer S = None \<longrightarrow> observed (snd st) = [])
   \<and> observed_after_commit (snd st)
   \<and> sorted_wrt (<) (map fst (committed (snd st)))
   \<and> (\<forall>t \<in> set (map fst (committed (snd st))). t \<le> t_n (fst st))
   \<and> (\<forall>t \<in> set (attempt_times (snd st)). t0 (m_opt S) < t \<and> t \<le> t1)
   \<and> t0 (m_opt S) \<le> t_n (fst st)
   \<and> t_n (fst st) \<le> max (t0 (m_opt S)) t1
   \<and> length (committed (snd st)) = steps (fst st)
   \<and> length (rejected (snd st)) = rejections (fst st)
   \<and> history (fst st) \<noteq> []
   \<and> (committed (snd st) \<noteq> [] \<longrightarrow> hd (history (fst st)) = last (committed (snd st)))"



text \<open>
  A small solver to run the definitions on: the Robertson mass matrix, the default
  observer, the given members of the object, a Newton iterator that keeps the last vector
  and converges up to time 1 and fails beyond, and a controller that halves the step on a
  rejection.
\<close>

definition demo_options :: SolverOptions where
  "demo_options =
    \<lparr>dt_init = 1 / 2, dt_min = 1 / 4, dt_max = 10, bdf_order = 2, atol = 0, rtol = 0,
     max_Newton_iter = 1, time_stepping = 1, dt_increase_threshold = 2,
     dt_increase_factor = 2, dt_decrease_factor = 1 / 2, fd_tol = 0, verbosity = 0, t0 = 0\<rparr>"

definition demo_solver :: "'s \<Rightarrow> 's Solver" where
  "demo_solver u =
    \<lparr>m_rhs = (\<lambda>x f t. Inr f),
     m_jac = (\<lambda>J x t. Inr J),
     m_mass = MyMassMatrix,
     m_opt = demo_options,
     m_steps = 0,
     m_calls = 0,
     m_observer = Some observer,
     m_self = u,
     m_newton = (\<lambda>rhs jac M h k dt t'. if t' \<le> 1 then (converged, snd (hd h)) else (failed, [])),
     m_next_dt = (\<lambda>sig e dt. if sig = failed \<or> sig = singular then dt / 2 else dt),
     m_max_rejections = 5\<rparr>"


section \<open>Vectors and holders\<close>

lemma length_resize: "length (resize n xs) = n"
  by (simp add: resize_def)

lemma update3: "length f = 3 \<Longrightarrow> f[0 := a, Suc 0 := b, 2 := c] = [a, b, c]"
  by (auto simp: eval_nat_numeral length_Suc_conv)

lemma update4: "length f = 4 \<Longrightarrow> f[0 := a, Suc 0 := b, 2 := c, 3 := d] = [a, b, c, d]"
  by (auto simp: eval_nat_numeral length_Suc_conv)

lemma update9:
  "length f = 9 \<Longrightarrow>
   f[0 := a0, Suc 0 := a1, 2 := a2, 3 := a3, 4 := a4, 5 := a5, 6 := a6, 7 := a7, 8 := a8]
   = [a0, a1, a2, a3, a4, a5, a6, a7, a8]"
  by (auto simp: eval_nat_numeral length_Suc_conv)

lemma less3_cases: "i < (3::nat) \<Longrightarrow> i = 0 \<or> i = Suc 0 \<or> i = 2"
  by arith

section \<open>The Robertson example\<close>

lemma MyMassMatrix_value:
  "MyMassMatrix M = \<lparr>A = [1, 1, 0], ia = [0, 1, 2, 3], ja = [0, 1, 2]\<rparr>"
  by (cases M) (simp add: MyMassMatrix_def Let_def update3 update4 length_resize)

lemma MyMassMatrix_rows:
  "csr_row (MyMassMatrix M) 0 = [(0, 1)]"
  "csr_row (MyMassMatrix M) (Suc 0) = [(1, 1)]"
  "csr_row (MyMassMatrix M) 2 = [(2, 0)]"
  by (simp_all add: MyMassMatrix_value csr_row_def eval_nat_numeral)

lemma MyMassMatrix_entry:
  assumes "i < 3" "j < 3"
  shows "csr_entry (MyMassMatrix M) i j = (if i = j \<and> i < 2 then 1 else 0)"
  using less3_cases[OF assms(1)] less3_cases[OF assms(2)]
  by (elim disjE) (simp_all add: csr_entry_def MyMassMatrix_rows)

lemma MyRHS_value:
  assumes "3 \<le> length x" "length f = 3"
  shows "MyRHS x f t =
    Inr [- 0.04 * x ! 0 + 10000 * x ! 1 * x ! 2,
         0.04 * x ! 0 - 10000 * x ! 1 * x ! 2 - 30000000 * x ! 1 * x ! 1,
         x ! 0 + x ! 1 + x ! 2 - 1]"
  using assms by (simp add: MyRHS_def update3)

lemma MyJacobian_value:
  assumes "3 \<le> length x"
  shows "MyJacobian J x t =
    Inr \<lparr>A = [- 0.04, 10000 * x ! 2, 10000 * x ! 1,
              0.04, - 10000 * x ! 2 - 60000000 * x ! 1, - 10000 * x ! 1,
              1, 1, 1],
         ia = [0, 3, 6, 9],
         ja = [0, 1, 2, 0, 1, 2, 0, 1, 2]\<rparr>"
  using assms by (cases J) (simp add: MyJacobian_def Let_def update9 update4 length_resize)

lemma MyJacobian_rows:
  assumes "3 \<le> length x"
  shows "csr_row (projr (MyJacobian J x t)) 0
           = [(0, - 0.04), (1, 10000 * x ! 2), (2, 10000 * x ! 1)]"
    and "csr_row (projr (MyJacobian J x t)) (Suc 0)
           = [(0, 0.04), (1, - 10000 * x ! 2 - 60000000 * x ! 1), (2, - 10000 * x ! 1)]"
    and "csr_row (projr (MyJacobian J x t)) 2 = [(0, 1), (1, 1), (2, 1)]"
  by (simp_all add: MyJacobian_value[OF assms] csr_row_def eval_nat_numeral)

text \<open>
  C5. The Robertson example is scenario S1: for a state vector \<open>x\<close> with its three
  components and a vector \<open>f\<close> of three, \<open>MyRHS\<close> leaves in \<open>f\<close> the three residuals
  \<open>-0.04 x1 + 1e4 x2 x3\<close>, \<open>0.04 x1 - 1e4 x2 x3 - 3e7 x2^2\<close> and \<open>x1 + x2 + x3 - 1\<close>;
  \<open>MyMassMatrix\<close> fills, whatever the holder held, the three arrays
  \<open>A = [1,1,0]\<close>, \<open>ja = [0,1,2]\<close>, \<open>ia = [0,1,2,3]\<close>, which read as a matrix are
  \<open>diag(1,1,0)\<close>; the zero of the third row is stored, so that \<open>nnz = 3\<close>.
\<close>

theorem robertson_encodes_S1:
  assumes "3 \<le> length x" "length f = 3" "i < 3" "j < 3"
  shows "MyRHS x f t =
      Inr [- 0.04 * x ! 0 + 10000 * x ! 1 * x ! 2,
           0.04 * x ! 0 - 10000 * x ! 1 * x ! 2 - 30000000 * x ! 1 * x ! 1,
           x ! 0 + x ! 1 + x ! 2 - 1]
    \<and> MyMassMatrix M = \<lparr>A = [1, 1, 0], ia = [0, 1, 2, 3], ja = [0, 1, 2]\<rparr>
    \<and> nnz (MyMassMatrix M) = 3
    \<and> csr_row (MyMassMatrix M) 2 = [(2, 0)]
    \<and> csr_entry (MyMassMatrix M) i j = (if i = j \<and> i < 2 then 1 else 0)"
  using MyRHS_value[OF assms(1,2)] MyMassMatrix_entry[OF assms(3,4)] MyMassMatrix_rows(3)
  by (simp add: MyMassMatrix_value nnz_def)

theorem robertson_encodes_S1_witness:
  "MyRHS [1, 0, 1 / 1000] [0, 0, 0] 0 = Inr [- (1 / 25), 1 / 25, 1 / 1000]
   \<and> nnz (MyMassMatrix empty_holder) = 3
   \<and> csr_entry (MyMassMatrix empty_holder) 2 2 = 0
   \<and> csr_entry (MyMassMatrix empty_holder) 1 1 = 1"
proof -
  have h: "3 \<le> length [1, 0, 1 / 1000 :: real]" "length [0, 0, 0 :: real] = 3"
    "(2::nat) < 3" "(1::nat) < 3"
    by simp_all
  note r2 = robertson_encodes_S1[OF h(1) h(2) h(3) h(3), of 0 empty_holder]
  note r1 = robertson_encodes_S1[OF h(1) h(2) h(4) h(4), of 0 empty_holder]
  have a: "MyRHS [1, 0, 1 / 1000] [0, 0, 0] 0 = Inr [- (1 / 25), 1 / 25, 1 / 1000]"
    using r2[THEN conjunct1] by simp
  have b: "nnz (MyMassMatrix empty_holder) = 3"
    using r2[THEN conjunct2, THEN conjunct2, THEN conjunct1] .
  have c: "csr_entry (MyMassMatrix empty_holder) 2 2 = 0"
    using r2[THEN conjunct2, THEN conjunct2, THEN conjunct2, THEN conjunct2] by simp
  have d: "csr_entry (MyMassMatrix empty_holder) 1 1 = 1"
    using r1[THEN conjunct2, THEN conjunct2, THEN conjunct2, THEN conjunct2] by simp
  from a b c d show ?thesis by blast
qed

text \<open>
  C4. For every state vector of length 3 and every time, the analytic Jacobian of the
  Robertson example is the matrix of the partial derivatives of its right-hand side: the
  entry in row \<open>i\<close> and column \<open>j\<close> of the matrix that \<open>MyJacobian\<close> fills is the
  derivative of component \<open>i\<close> of what \<open>MyRHS\<close> computes, taken in the component \<open>j\<close> of
  \<open>x\<close> at \<open>x\<close>.
\<close>

theorem MyJacobian_is_derivative_of_MyRHS:
  assumes "length x = 3" "length f = 3" "i < 3" "j < 3"
  shows "\<exists>J'. MyJacobian J x t = Inr J' \<and>
    ((\<lambda>y. projr (MyRHS (x[j := y]) f t) ! i) has_real_derivative csr_entry J' i j) (at (x ! j))"
proof -
  have x3: "3 \<le> length x" using assms(1) by simp
  note rows = MyJacobian_rows[OF x3, of J t]
  have "((\<lambda>y. projr (MyRHS (x[j := y]) f t) ! i)
          has_real_derivative csr_entry (projr (MyJacobian J x t)) i j) (at (x ! j))"
    using less3_cases[OF assms(3)] less3_cases[OF assms(4)] assms(1) assms(2)
    apply (elim disjE)
            apply (simp_all add: MyRHS_value csr_entry_def rows)
            apply (auto intro!: derivative_eq_intros)
    done
  then show ?thesis by (simp add: MyJacobian_value[OF x3])
qed

theorem MyJacobian_is_derivative_of_MyRHS_witness:
  "((\<lambda>y. projr (MyRHS ([1, 0, 1 / 1000][1 := y]) [0, 0, 0] 0) ! 1) has_real_derivative - 10) (at 0)"
proof -
  have x3: "3 \<le> length [1, 0, 1 / 1000 :: real]" by simp
  from MyJacobian_is_derivative_of_MyRHS[of "[1, 0, 1 / 1000]" "[0, 0, 0]" 1 1 empty_holder 0]
  obtain J' where J': "MyJacobian empty_holder [1, 0, 1 / 1000] 0 = Inr J'"
    and d: "((\<lambda>y. projr (MyRHS ([1, 0, 1 / 1000][1 := y]) [0, 0, 0] 0) ! 1)
              has_real_derivative csr_entry J' 1 1) (at ([1, 0, 1 / 1000] ! 1))"
    by auto
  have "csr_entry J' 1 1 = - 10"
    using MyJacobian_rows(2)[OF x3, of empty_holder 0] J' by (simp add: csr_entry_def)
  with d show ?thesis by simp
qed

section \<open>The perovskite Jacobian\<close>

lemma MKL_INT_MAX_ge: "2147483647 \<le> MKL_INT_MAX b"
  by (simp add: MKL_INT_MAX_def MKL_INT_bits_def)

lemma fits_nonneg: "0 \<le> v \<Longrightarrow> v \<le> MKL_INT_MAX b \<Longrightarrow> fits b v"
  using MKL_INT_MAX_ge[of b] by (simp add: fits_def)

lemma to_MKL_INT_id: "int n \<le> MKL_INT_MAX b \<Longrightarrow> to_MKL_INT b n = int n"
  by (cases b) (simp_all add: to_MKL_INT_def MKL_INT_MAX_def MKL_INT_bits_def
      signed_take_bit_int_eq_self)

lemma jac_loop_append:
  "jac_loop b p x (rows @ later) s =
    (case jac_loop b p x rows s of Inl e \<Rightarrow> Inl e | Inr s' \<Rightarrow> jac_loop b p x later s')"
  by (induction rows arbitrary: s) (auto split: sum.splits)

lemma jac_loop_snoc:
  "jac_loop b p x (rows @ [i]) s =
    (case jac_loop b p x rows s of Inl e \<Rightarrow> Inl e | Inr s' \<Rightarrow> jac_row b p x i s')"
  by (simp add: jac_loop_append split: sum.splits)

text \<open>
  One pass of the loop body appends the row pointer and the columns of the row, when the
  counter stays in the range of \<open>MKL_INT\<close>.
\<close>

lemma jac_row_shape:
  assumes "2 \<le> N p" "int (length x) = 2 * N p" "0 \<le> i" "i < 2 * N p"
    and "2 * N p \<le> MKL_INT_MAX b" "0 \<le> c"
    and "c + int (length (row_cols (N p) i)) \<le> MKL_INT_MAX b"
  shows "\<exists>J'. jac_row b p x i (J, c) = Inr (J', c + int (length (row_cols (N p) i)))
          \<and> ia J' = ia J @ [c]
          \<and> ja J' = ja J @ row_cols (N p) i
          \<and> length (A J') = length (A J) + length (row_cols (N p) i)"
proof -
  have small: "fits b v" if "0 \<le> v" "v \<le> 2 * N p" for v
    using that assms(5) by (intro fits_nonneg) auto
  have count: "fits b (c + int (length (row_cols (N p) i)))"
    using assms(6,7) by (intro fits_nonneg) auto
  consider "i = 0" | "0 < i" "i < N p - 1" | "i = N p - 1" | "i = N p"
    | "N p < i" "i < 2 * N p - 1" | "i = 2 * N p - 1"
    using assms(3,4) by linarith
  then show ?thesis
  proof cases
    case 1
    with assms(1,2) count show ?thesis
      by (simp add: jac_row_def checked_def row_cols_def Let_def in_range_def push_entry_def
          push_back_def small)
  next
    case 2
    with assms(1,2) count show ?thesis
      by (simp add: jac_row_def checked_def row_cols_def Let_def in_range_def push_entry_def
          push_back_def small)
  next
    case 3
    with assms(1,2) count show ?thesis
      by (simp add: jac_row_def checked_def row_cols_def Let_def in_range_def push_entry_def
          push_back_def small)
  next
    case 4
    with assms(1,2) count show ?thesis
      by (simp add: jac_row_def checked_def row_cols_def Let_def in_range_def push_entry_def
          push_back_def small)
  next
    case 5
    with assms(1,2) count show ?thesis
      by (simp add: jac_row_def checked_def row_cols_def Let_def in_range_def push_entry_def
          push_back_def small)
  next
    case 6
    with assms(1,2) count show ?thesis
      by (simp add: jac_row_def checked_def row_cols_def Let_def in_range_def push_entry_def
          push_back_def small)
  qed
qed

lemma row_start_nonneg: "0 \<le> row_start n k"
  by (induction k) auto

lemma row_start_mono: "i \<le> j \<Longrightarrow> row_start n i \<le> row_start n j"
  by (induction j) (auto simp: le_Suc_eq)

lemma jac_loop_shape:
  assumes "2 \<le> N p" "int (length x) = 2 * N p" "int k \<le> 2 * N p"
    and "2 * N p \<le> MKL_INT_MAX b" "row_start (N p) k \<le> MKL_INT_MAX b"
  shows "\<exists>J'. jac_loop b p x (map int [0 ..< k]) (J, 0) = Inr (J', row_start (N p) k)
          \<and> ia J' = ia J @ map (row_start (N p)) [0 ..< k]
          \<and> ja J' = ja J @ concat (map (\<lambda>i. row_cols (N p) (int i)) [0 ..< k])
          \<and> length (A J') = length (A J) + nat (row_start (N p) k)"
  using assms(3,5)
proof (induction k)
  case 0
  then show ?case by simp
next
  case (Suc k)
  have "row_start (N p) k \<le> row_start (N p) (Suc k)"
    by (rule row_start_mono) simp
  with Suc obtain J1 where J1:
    "jac_loop b p x (map int [0 ..< k]) (J, 0) = Inr (J1, row_start (N p) k)"
    "ia J1 = ia J @ map (row_start (N p)) [0 ..< k]"
    "ja J1 = ja J @ concat (map (\<lambda>i. row_cols (N p) (int i)) [0 ..< k])"
    "length (A J1) = length (A J) + nat (row_start (N p) k)"
    by auto
  have "\<exists>J'. jac_row b p x (int k) (J1, row_start (N p) k)
          = Inr (J', row_start (N p) k + int (length (row_cols (N p) (int k))))
        \<and> ia J' = ia J1 @ [row_start (N p) k]
        \<and> ja J' = ja J1 @ row_cols (N p) (int k)
        \<and> length (A J') = length (A J1) + length (row_cols (N p) (int k))"
  proof (rule jac_row_shape[OF assms(1,2) _ _ assms(4) row_start_nonneg])
    show "0 \<le> int k" by simp
    show "int k < 2 * N p" using Suc.prems by simp
    show "row_start (N p) k + int (length (row_cols (N p) (int k))) \<le> MKL_INT_MAX b"
      using Suc.prems(2) by simp
  qed
  then obtain J2 where J2:
    "jac_row b p x (int k) (J1, row_start (N p) k)
      = Inr (J2, row_start (N p) k + int (length (row_cols (N p) (int k))))"
    "ia J2 = ia J1 @ [row_start (N p) k]"
    "ja J2 = ja J1 @ row_cols (N p) (int k)"
    "length (A J2) = length (A J1) + length (row_cols (N p) (int k))"
    by auto
  show ?case
    using J1 J2 row_start_nonneg[of "N p" k] by (simp add: jac_loop_snoc nat_add_distrib)
qed

text \<open>The row pointers in closed form: 4, then 6 a row, 4, 1, then 4 a row, 1.\<close>

lemma row_start_closed:
  assumes "2 \<le> n" "int k \<le> 2 * n"
  shows "row_start n k =
    (if k = 0 then 0
     else if int k \<le> n - 1 then 6 * int k - 2
     else if int k = n then 6 * n - 4
     else if int k \<le> 2 * n - 1 then 4 * int k + 2 * n - 7
     else 10 * n - 10)"
  using assms(2)
proof (induction k)
  case 0
  then show ?case by simp
next
  case (Suc k)
  then have IH: "row_start n k =
    (if k = 0 then 0
     else if int k \<le> n - 1 then 6 * int k - 2
     else if int k = n then 6 * n - 4
     else if int k \<le> 2 * n - 1 then 4 * int k + 2 * n - 7
     else 10 * n - 10)"
    by simp
  show ?case
    using assms(1) Suc.prems by (simp add: IH row_cols_def)
qed

lemma row_start_total:
  assumes "2 \<le> n" "int k = 2 * n"
  shows "row_start n k = 10 * n - 10"
proof -
  have "k \<noteq> 0" "\<not> int k \<le> n - 1" "int k \<noteq> n" "\<not> int k \<le> 2 * n - 1" "int k \<le> 2 * n"
    using assms by auto
  then show ?thesis
    using row_start_closed[OF assms(1), of k] by simp
qed

lemma row_start_length:
  "row_start n k = int (length (concat (map (\<lambda>i. row_cols n (int i)) [0 ..< k])))"
  by (induction k) auto

text \<open>The slice of \<open>ja\<close> between two consecutive row pointers is the row.\<close>

lemma row_slice:
  assumes "i < m"
  shows "take (nat (row_start n (Suc i)) - nat (row_start n i))
           (drop (nat (row_start n i)) (concat (map (\<lambda>i. row_cols n (int i)) [0 ..< m])))
         = row_cols n (int i)"
proof -
  let ?r = "\<lambda>i. row_cols n (int i)"
  have split: "[0 ..< m] = [0 ..< i] @ i # [Suc i ..< m]"
    using assms upt_add_eq_append[of 0 i "m - i"] by (simp add: upt_conv_Cons)
  have "concat (map ?r [0 ..< m])
      = concat (map ?r [0 ..< i]) @ ?r i @ concat (map ?r [Suc i ..< m])"
    by (subst split) simp
  moreover have "nat (row_start n i) = length (concat (map ?r [0 ..< i]))"
    by (simp add: row_start_length)
  moreover have "nat (row_start n (Suc i)) - nat (row_start n i) = length (?r i)"
    by (simp add: row_start_length)
  ultimately show ?thesis by simp
qed

lemma row_cols_strict:
  "2 \<le> n \<Longrightarrow> 0 \<le> i \<Longrightarrow> i < 2 * n \<Longrightarrow> sorted_wrt (<) (row_cols n i)"
  by (simp add: row_cols_def)

lemma row_cols_range:
  "2 \<le> n \<Longrightarrow> 0 \<le> i \<Longrightarrow> i < 2 * n \<Longrightarrow> c \<in> set (row_cols n i) \<Longrightarrow> 0 \<le> c \<and> c < 2 * n"
  by (auto simp add: row_cols_def split: if_splits)

text \<open>
  The call as a whole appends to the three arrays of the holder it is given, when the
  number of entries stays in the range of \<open>MKL_INT\<close>.
\<close>

lemma perovskite_MyJacobian_appends:
  assumes "2 \<le> N p" "int (length x) = 2 * N p" "10 * N p - 10 \<le> MKL_INT_MAX b"
  shows "\<exists>J'. perovskite_MyJacobian b p J x t = Inr J'
     \<and> ia J' = ia J @ map (row_start (N p)) [0 ..< Suc (length x)]
     \<and> ja J' = ja J @ concat (map (\<lambda>i. row_cols (N p) (int i)) [0 ..< length x])
     \<and> length (A J') = length (A J) + nat (10 * N p - 10)"
proof -
  have k: "int (length x) \<le> 2 * N p"
    using assms by simp
  have rs: "row_start (N p) (length x) = 10 * N p - 10"
    by (rule row_start_total[OF assms(1,2)])
  have m: "2 * N p \<le> MKL_INT_MAX b" "row_start (N p) (length x) \<le> MKL_INT_MAX b"
    using assms(1,3) rs by auto
  have sz: "nat (to_MKL_INT b (length x)) = length x"
    using to_MKL_INT_id[of "length x" b] m(1) assms(2) by simp
  from jac_loop_shape[OF assms(1,2) k m, of J]
  obtain J1 where J1:
    "jac_loop b p x (map int [0 ..< length x]) (J, 0) = Inr (J1, row_start (N p) (length x))"
    "ia J1 = ia J @ map (row_start (N p)) [0 ..< length x]"
    "ja J1 = ja J @ concat (map (\<lambda>i. row_cols (N p) (int i)) [0 ..< length x])"
    "length (A J1) = length (A J) + nat (row_start (N p) (length x))"
    by auto
  show ?thesis
    using J1 rs sz by (simp add: perovskite_MyJacobian_def push_back_def Let_def)
qed

lemma upt4: "[0 ..< 4] = [0, 1, 2, 3::nat]"
  by (simp add: upt_conv_Cons)

lemma fits_small: "0 \<le> v \<Longrightarrow> v \<le> 2147483647 \<Longrightarrow> fits b v"
  using MKL_INT_MAX_ge[of b] by (intro fits_nonneg) auto

lemma to_MKL_INT_4: "to_MKL_INT b (Suc (Suc (Suc (Suc 0)))) = 4"
  using to_MKL_INT_id[of 4 b] MKL_INT_MAX_ge[of b] by (simp add: eval_nat_numeral)

text \<open>
  The bound on the number of entries is needed. In the default build, where \<open>MKL_INT\<close>
  has 32 bits, \<open>N = 214748366\<close> gives \<open>10N - 10 = 2147483650\<close>: the cast of the
  size and the indices still fit, but in the last row but one the counter would pass
  \<open>2^31 - 1\<close>, which the source does not define.
\<close>

lemma perovskite_MyJacobian_overflows_LP64:
  fixes x :: state_type
  assumes "N p = 214748366" "length x = 429496732"
  shows "perovskite_MyJacobian False p empty_holder x t = Inl Overflow"
proof -
  define k :: nat where "k = length x - 2"
  have kx: "int k = 429496730" "length x = Suc (Suc k)"
    using assms(2) by (simp_all add: k_def)
  have mx: "MKL_INT_MAX False = 2147483647"
    by (simp add: MKL_INT_MAX_def MKL_INT_bits_def)
  have h: "2 \<le> N p" "int (length x) = 2 * N p" "int k \<le> 2 * N p"
    "2 * N p \<le> MKL_INT_MAX False"
    using assms kx(1) by (simp_all add: mx)
  have rs: "row_start (N p) k = 2147483645"
    using row_start_closed[OF h(1) h(3)] kx(1) assms(1) by (cases "k = 0") simp_all
  have rs': "row_start (N p) k \<le> MKL_INT_MAX False"
    unfolding rs mx by simp
  from jac_loop_shape[OF h rs', of empty_holder]
  obtain J1 where J1: "jac_loop False p x (map int [0 ..< k]) (empty_holder, 0)
      = Inr (J1, 2147483645)"
    unfolding rs by blast
  have row: "jac_row False p x (int k) (J1, 2147483645) = Inl Overflow"
    unfolding kx(1)
    by (simp add: jac_row_def checked_def fits_def mx Let_def assms(1))
  have sz: "nat (to_MKL_INT False (length x)) = Suc (Suc k)"
    using to_MKL_INT_id[of "length x" False] h(2,4) kx(2) by simp
  have split: "map int [0 ..< Suc (Suc k)] = map int [0 ..< k] @ [int k, int (Suc k)]"
    by simp
  show ?thesis
    by (simp only: perovskite_MyJacobian_def Let_def sz split jac_loop_append J1 sum.case
        jac_loop.simps row)
qed

text \<open>
  C9, as stated, fails: the function appends to the arrays of the holder and never clears
  them. Given a holder that already holds the 1 by 1 identity, \<open>N = 2\<close> and a vector of
  length 4, it leaves an \<open>ia\<close> of length 7 (not 5) that is not non-decreasing, and an
  \<open>A\<close> of length 11 (not 10).
\<close>

theorem perovskite_MyJacobian_used_holder_counterexample:
  "perovskite_MyJacobian False \<lparr>N = 2, invh = 1, lambda = 1\<rparr>
      \<lparr>A = [1], ia = [0, 1], ja = [0]\<rparr> [0, 0, 0, 0] 0
    = Inr \<lparr>A = [1, - 1, 1, 0, 0, 1, - 1, 0, 0, 1, 1],
           ia = [0, 1, 0, 4, 8, 9, 10],
           ja = [0, 0, 1, 2, 3, 0, 1, 2, 3, 2, 3]\<rparr>
   \<and> length [0, 1, 0, 4, 8, 9, 10 :: int] \<noteq> 2 * 2 + 1
   \<and> \<not> sorted [0, 1, 0, 4, 8, 9, 10 :: int]
   \<and> length [1, - 1, 1, 0, 0, 1, - 1, 0, 0, 1, 1 :: real] \<noteq> 10 * 2 - 10"
  by (simp add: perovskite_MyJacobian_def jac_row_def checked_def in_range_def push_entry_def
      push_back_def xat_def upt4 Let_def fits_small to_MKL_INT_4)

text \<open>
  C9, amended. For every \<open>N \<ge> 2\<close> such that \<open>10N - 10\<close> is in the range of
  \<open>MKL_INT\<close> (at most \<open>2^31 - 1\<close> in the default build, \<open>2^63 - 1\<close> with
  \<open>MKL_ILP64\<close>) and every state vector of length \<open>2N\<close>, the perovskite Jacobian
  called on an empty holder fills it with a well-formed matrix in the three-array format: \<open>ia\<close> has length \<open>2N + 1\<close>, is non-decreasing, starts at 0 and
  ends at \<open>10N - 10\<close>; \<open>A\<close> and \<open>ja\<close> have length \<open>10N - 10\<close>; every column index
  is in \<open>[0, 2N)\<close>; within each row the column indices increase strictly.
\<close>

theorem perovskite_MyJacobian_well_formed:
  assumes "2 \<le> N p" "int (length x) = 2 * N p" "10 * N p - 10 \<le> MKL_INT_MAX MKL_ILP64"
  shows "\<exists>J'. perovskite_MyJacobian MKL_ILP64 p empty_holder x t = Inr J'
     \<and> length (ia J') = 2 * nat (N p) + 1
     \<and> sorted (ia J')
     \<and> ia J' ! 0 = 0
     \<and> ia J' ! (2 * nat (N p)) = 10 * N p - 10
     \<and> length (A J') = nat (10 * N p - 10)
     \<and> length (ja J') = nat (10 * N p - 10)
     \<and> (\<forall>c \<in> set (ja J'). 0 \<le> c \<and> c < 2 * N p)
     \<and> (\<forall>i < 2 * nat (N p). sorted_wrt (<) (csr_row_cols J' i))"
proof -
  let ?n = "N p"
  let ?r = "\<lambda>i. row_cols ?n (int i)"
  have len: "length x = 2 * nat ?n"
    using assms by linarith
  have rs: "row_start ?n (length x) = 10 * ?n - 10"
    by (rule row_start_total[OF assms(1,2)])
  from perovskite_MyJacobian_appends[OF assms, of empty_holder t]
  obtain J' where eq: "perovskite_MyJacobian MKL_ILP64 p empty_holder x t = Inr J'"
    and ia_eq: "ia J' = map (row_start ?n) [0 ..< Suc (length x)]"
    and ja_eq: "ja J' = concat (map ?r [0 ..< length x])"
    and A_len: "length (A J') = nat (10 * ?n - 10)"
    by (auto simp: empty_holder_def)
  have ia_nth: "ia J' ! i = row_start ?n i" if "i \<le> length x" for i
    unfolding ia_eq using that nth_map_upt[of i "Suc (length x)" 0 "row_start ?n"] by simp
  have c1: "length (ia J') = 2 * nat ?n + 1"
    by (simp add: ia_eq len)
  have c2: "sorted (ia J')"
    unfolding sorted_iff_nth_mono using ia_nth row_start_mono by (simp add: ia_eq)
  have c3: "ia J' ! 0 = 0"
    using ia_nth[of 0] by simp
  have c4: "ia J' ! (2 * nat ?n) = 10 * ?n - 10"
    using ia_nth[of "length x"] rs len by simp
  have c6: "length (ja J') = nat (10 * ?n - 10)"
    using row_start_length[of ?n "length x"] rs ja_eq by simp
  have c7: "\<forall>c \<in> set (ja J'). 0 \<le> c \<and> c < 2 * ?n"
  proof
    fix c
    assume "c \<in> set (ja J')"
    then obtain i where i: "i < length x" "c \<in> set (row_cols ?n (int i))"
      unfolding ja_eq by auto
    then have "0 \<le> int i" "int i < 2 * ?n"
      using assms by auto
    from row_cols_range[OF assms(1) this i(2)] show "0 \<le> c \<and> c < 2 * ?n" .
  qed
  have c8: "\<forall>i < 2 * nat ?n. sorted_wrt (<) (csr_row_cols J' i)"
  proof (intro allI impI)
    fix i
    assume "i < 2 * nat ?n"
    then have i: "i < length x"
      using len by simp
    then have "0 \<le> int i" "int i < 2 * ?n"
      using assms by auto
    from row_cols_strict[OF assms(1) this] have "sorted_wrt (<) (row_cols ?n (int i))" .
    moreover have "csr_row_cols J' i = row_cols ?n (int i)"
      using row_slice[OF i, of ?n] ia_nth[of i] ia_nth[of "Suc i"] i
      by (simp add: csr_row_cols_def ja_eq Let_def)
    ultimately show "sorted_wrt (<) (csr_row_cols J' i)"
      by simp
  qed
  from eq c1 c2 c3 c4 A_len c6 c7 c8 show ?thesis
    by blast
qed

theorem perovskite_MyJacobian_well_formed_witness:
  "perovskite_MyJacobian False \<lparr>N = 2, invh = 1, lambda = 1\<rparr> empty_holder [0, 0, 0, 0] 0
     = Inr \<lparr>A = [- 1, 1, 0, 0, 1, - 1, 0, 0, 1, 1], ia = [0, 4, 8, 9, 10],
            ja = [0, 1, 2, 3, 0, 1, 2, 3, 2, 3]\<rparr>
   \<and> sorted [0, 4, 8, 9, 10 :: int]
   \<and> sorted_wrt (<) (csr_row_cols \<lparr>A = [- 1, 1, 0, 0, 1, - 1, 0, 0, 1, 1], ia = [0, 4, 8, 9, 10],
            ja = [0, 1, 2, 3, 0, 1, 2, 3, 2, 3]\<rparr> 1)"
proof -
  let ?p = "\<lparr>N = 2, invh = 1, lambda = 1\<rparr>"
  let ?J = "\<lparr>A = [- 1, 1, 0, 0, 1, - 1, 0, 0, 1, 1], ia = [0, 4, 8, 9, 10],
            ja = [0, 1, 2, 3, 0, 1, 2, 3, 2, 3]\<rparr>"
  have h: "2 \<le> N ?p" "int (length [0, 0, 0, 0 :: real]) = 2 * N ?p"
    "10 * N ?p - 10 \<le> MKL_INT_MAX False"
    by (simp_all add: MKL_INT_MAX_def MKL_INT_bits_def)
  have run: "perovskite_MyJacobian False ?p empty_holder [0, 0, 0, 0] 0 = Inr ?J"
    by (simp add: perovskite_MyJacobian_def jac_row_def checked_def in_range_def push_entry_def
        push_back_def xat_def empty_holder_def upt4 Let_def fits_small to_MKL_INT_4)
  from perovskite_MyJacobian_well_formed[OF h, of 0]
  have "sorted (ia ?J) \<and> (\<forall>i < 2 * nat (N ?p). sorted_wrt (<) (csr_row_cols ?J i))"
    unfolding run by auto
  then have "sorted [0, 4, 8, 9, 10 :: int]" "sorted_wrt (<) (csr_row_cols ?J 1)"
    by simp_all
  with run show ?thesis
    by blast
qed



section \<open>The solve loop\<close>

text \<open>A property of the state and the events that every attempt preserves holds at the end.\<close>

lemma integrate_invariant:
  assumes "integrate fuel S M t1 st = Some (oc, st')"
    and "I st"
    and step: "\<And>s tr. I (s, tr) \<Longrightarrow> t_n s < t1 \<Longrightarrow> dt_min (m_opt S) \<le> dt_n s
            \<Longrightarrow> I (fst (attempt S M t1 s), tr @ snd (attempt S M t1 s))"
  shows "I st'"
  using assms(1,2)
proof (induction fuel arbitrary: st)
  case 0
  then show ?case by simp
next
  case (Suc fuel)
  obtain s tr where st: "st = (s, tr)"
    by (cases st)
  show ?case
  proof (cases "t1 \<le> t_n s \<or> dt_n s < dt_min (m_opt S) \<or> m_max_rejections S < rejections s")
    case True
    then have "st' = st"
      using Suc.prems(1) st by (auto simp: Let_def split: if_splits)
    then show ?thesis
      using Suc.prems(2) by simp
  next
    case False
    then have run: "integrate fuel S M t1 (fst (attempt S M t1 s), tr @ snd (attempt S M t1 s))
        = Some (oc, st')"
      using Suc.prems(1) st by (simp add: Let_def)
    have "I (fst (attempt S M t1 s), tr @ snd (attempt S M t1 s))"
      using step[of s tr] Suc.prems(2) False st by simp
    from Suc.IH[OF run this] show ?thesis .
  qed
qed

text \<open>How the loop ends, read from the state it ends in.\<close>

lemma integrate_outcome:
  assumes "integrate fuel S M t1 st = Some (oc, st')"
  shows "(oc = Reached \<longleftrightarrow> t1 \<le> t_n (fst st')) \<and> oc \<noteq> Programmer_error
    \<and> oc \<noteq> Aborted Non_finite_state
    \<and> (oc = Aborted Step_underflow
          \<longleftrightarrow> t_n (fst st') < t1 \<and> dt_n (fst st') < dt_min (m_opt S))
    \<and> (oc = Aborted Singular_system
          \<longleftrightarrow> t_n (fst st') < t1 \<and> dt_min (m_opt S) \<le> dt_n (fst st')
              \<and> m_max_rejections S < rejections (fst st') \<and> last_rejection (fst st') = singular)
    \<and> (oc = Aborted Newton_divergence
          \<longleftrightarrow> t_n (fst st') < t1 \<and> dt_min (m_opt S) \<le> dt_n (fst st')
              \<and> m_max_rejections S < rejections (fst st') \<and> last_rejection (fst st') \<noteq> singular)"
  using assms
proof (induction fuel arbitrary: st)
  case 0
  then show ?case by simp
next
  case (Suc fuel)
  show ?case
  proof (cases "t1 \<le> t_n (fst st) \<or> dt_n (fst st) < dt_min (m_opt S)
                 \<or> m_max_rejections S < rejections (fst st)")
    case True
    then show ?thesis
      using Suc.prems by (auto simp: Let_def split: if_splits)
  next
    case False
    then have "integrate fuel S M t1
        (fst (attempt S M t1 (fst st)), snd st @ snd (attempt S M t1 (fst st))) = Some (oc, st')"
      using Suc.prems by (simp add: Let_def)
    then show ?thesis
      by (rule Suc.IH)
  qed
qed

text \<open>The three ways an attempt can go, with what each leaves behind.\<close>

lemma attempt_cases:
  assumes "0 < dt_n s" "t_n s < t1"
  obtains (rejected) t' where "snd (attempt S M t1 s) = [Rejected t']"
      "t' = (if t1 - t_n s \<le> dt_n s then t1 else t_n s + dt_n s)"
      "t_n (fst (attempt S M t1 s)) = t_n s" "x_n (fst (attempt S M t1 s)) = x_n s"
      "history (fst (attempt S M t1 s)) = history s" "self (fst (attempt S M t1 s)) = self s"
      "steps (fst (attempt S M t1 s)) = steps s"
      "rejections (fst (attempt S M t1 s)) = Suc (rejections s)"
  | (silent) t' x' where "m_observer S = None" "snd (attempt S M t1 s) = [Committed t' x']"
      "t' = (if t1 - t_n s \<le> dt_n s then t1 else t_n s + dt_n s)"
      "t_n (fst (attempt S M t1 s)) = t'" "x_n (fst (attempt S M t1 s)) = x'"
      "history (fst (attempt S M t1 s))
        = take (min (bdf_order (m_opt S)) (Suc (k_n s))) ((t', x') # history s)"
      "steps (fst (attempt S M t1 s)) = Suc (steps s)"
      "rejections (fst (attempt S M t1 s)) = rejections s"
      "self (fst (attempt S M t1 s)) = self s"
  | (observed) obs t' x' where "m_observer S = Some obs"
      "snd (attempt S M t1 s) = [Committed t' x', Observed t' x']"
      "t' = (if t1 - t_n s \<le> dt_n s then t1 else t_n s + dt_n s)"
      "t_n (fst (attempt S M t1 s)) = t'"
      "x_n (fst (attempt S M t1 s)) = x'"
      "self (fst (attempt S M t1 s)) = fst (obs (self s) x' t')"
      "history (fst (attempt S M t1 s))
        = take (min (bdf_order (m_opt S)) (Suc (k_n s))) ((t', x') # history s)"
      "steps (fst (attempt S M t1 s)) = Suc (steps s)"
      "rejections (fst (attempt S M t1 s)) = rejections s"
proof -
  define t' where "t' = (if t1 - t_n s \<le> dt_n s then t1 else t_n s + dt_n s)"
  define dt where "dt = (if t1 - t_n s \<le> dt_n s then t1 - t_n s else dt_n s)"
  define r where "r = m_newton S (m_rhs S) (m_jac S) M (history s) (k_n s) dt t'"
  consider "fst r = failed \<or> fst r = singular"
    | "\<not> (fst r = failed \<or> fst r = singular)" "m_observer S = None"
    | obs where "\<not> (fst r = failed \<or> fst r = singular)" "m_observer S = Some obs"
    by (cases "m_observer S") auto
  then show ?thesis
  proof cases
    case 1
    then show ?thesis
      by (intro rejected[of t'])
        (simp_all add: attempt_def Let_def t'_def[symmetric] dt_def[symmetric] r_def[symmetric])
  next
    case 2
    then show ?thesis
      by (intro silent[of t' "snd r"])
        (simp_all add: attempt_def Let_def t'_def[symmetric] dt_def[symmetric] r_def[symmetric])
  next
    case 3
    then show ?thesis
      by (intro observed[of obs t' "snd r"])
        (simp_all add: attempt_def Let_def t'_def[symmetric] dt_def[symmetric] r_def[symmetric])
  qed
qed

lemma attempt_time_bounds:
  assumes "0 < dt_n s" "t_n s < t1" "t' = (if t1 - t_n s \<le> dt_n s then t1 else t_n s + dt_n s)"
  shows "t_n s < t'" "t' \<le> t1"
  using assms by (auto split: if_splits)

subsection \<open>Reading the events\<close>

lemma observed_append: "observed (xs @ ys) = observed xs @ observed ys"
  by (induction xs rule: observed.induct) auto

lemma committed_append: "committed (xs @ ys) = committed xs @ committed ys"
  by (induction xs rule: committed.induct) auto

lemma rejected_append: "rejected (xs @ ys) = rejected xs @ rejected ys"
  by (induction xs rule: rejected.induct) auto

lemma mass_evaluations_append:
  "mass_evaluations (xs @ ys) = mass_evaluations xs @ mass_evaluations ys"
  by (induction xs rule: mass_evaluations.induct) auto

lemma attempt_times_append: "attempt_times (xs @ ys) = attempt_times xs @ attempt_times ys"
  by (induction xs rule: attempt_times.induct) auto

lemma drop_observed_append: "drop_observed (xs @ ys) = drop_observed xs @ drop_observed ys"
  by (induction xs rule: drop_observed.induct) auto

lemma observed_after_commit_rejected:
  "observed_after_commit tr \<Longrightarrow> observed_after_commit (tr @ [Rejected t])"
  by (induction tr rule: observed_after_commit.induct) auto

lemma observed_after_commit_committed:
  "observed_after_commit tr \<Longrightarrow> observed_after_commit (tr @ [Committed t x])"
  by (induction tr rule: observed_after_commit.induct) auto

lemma observed_after_commit_observed:
  "observed_after_commit tr \<Longrightarrow> observed_after_commit (tr @ [Committed t x, Observed t x])"
  by (induction tr rule: observed_after_commit.induct) auto

lemmas event_appends = observed_append committed_append rejected_append attempt_times_append

subsection \<open>The invariant of the events\<close>

lemma trace_inv_initial: "trace_inv S t1 (initial_state S x, [Mass_evaluated M])"
  by (simp add: trace_inv_def initial_state_def)

lemma trace_inv_attempt:
  assumes "trace_inv S t1 (s, tr)" "t_n s < t1" "0 < dt_n s" "1 \<le> bdf_order (m_opt S)"
  shows "trace_inv S t1 (fst (attempt S M t1 s), tr @ snd (attempt S M t1 s))"
  using assms(3,2)
proof (cases rule: attempt_cases[where S = S and M = M])
  case (rejected t')
  with attempt_time_bounds[OF assms(3,2) rejected(2)] show ?thesis
    using assms(1)
    by (auto simp add: trace_inv_def event_appends observed_after_commit_rejected)
next
  case (silent t' x')
  have k: "min (bdf_order (m_opt S)) (Suc (k_n s)) = Suc (min (bdf_order (m_opt S) - 1) (k_n s))"
    using assms(4) by auto
  from silent attempt_time_bounds[OF assms(3,2) silent(3)] show ?thesis
    using assms(1)
    by (auto simp add: trace_inv_def event_appends observed_after_commit_committed
        sorted_wrt_append k)
next
  case (observed obs t' x')
  have k: "min (bdf_order (m_opt S)) (Suc (k_n s)) = Suc (min (bdf_order (m_opt S) - 1) (k_n s))"
    using assms(4) by auto
  from observed attempt_time_bounds[OF assms(3,2) observed(3)] show ?thesis
    using assms(1)
    by (auto simp add: trace_inv_def event_appends observed_after_commit_observed
        sorted_wrt_append k)
qed

lemma integrate_trace_inv:
  assumes "integrate fuel S M t1 st = Some (oc, st')" "trace_inv S t1 st"
    "0 < dt_min (m_opt S)" "1 \<le> bdf_order (m_opt S)"
  shows "trace_inv S t1 st'"
proof (rule integrate_invariant[OF assms(1), where I = "trace_inv S t1"])
  show "trace_inv S t1 st" by fact
next
  fix s tr
  assume "trace_inv S t1 (s, tr)" "t_n s < t1" "dt_min (m_opt S) \<le> dt_n s"
  then show "trace_inv S t1 (fst (attempt S M t1 s), tr @ snd (attempt S M t1 s))"
    using assms(3,4) by (intro trace_inv_attempt) auto
qed

text \<open>A solve either reports a programmer error at once or runs the loop.\<close>

lemma solve_cases:
  assumes "solve fuel S x t1 = Some (oc, s, tr)"
  obtains (error) "oc = Programmer_error" "s = initial_state S x" "tr = []"
  | (run) "oc \<noteq> Programmer_error" "1 \<le> bdf_order (m_opt S)"
      "integrate fuel S (m_mass S empty_holder) t1
         (initial_state S x, [Mass_evaluated (m_mass S empty_holder)]) = Some (oc, s, tr)"
proof (cases "bdf_order (m_opt S) < 1 \<or> 6 < bdf_order (m_opt S) \<or> atol (m_opt S) < 0
               \<or> rtol (m_opt S) < 0")
  case True
  then have "oc = Programmer_error" "s = initial_state S x" "tr = []"
    using assms by (auto simp: solve_def Let_def)
  then show ?thesis
    by (rule error)
next
  case False
  then have r: "integrate fuel S (m_mass S empty_holder) t1
         (initial_state S x, [Mass_evaluated (m_mass S empty_holder)]) = Some (oc, s, tr)"
    using assms by (auto simp: solve_def Let_def)
  have "oc \<noteq> Programmer_error"
    using integrate_outcome[OF r] by simp
  moreover have "1 \<le> bdf_order (m_opt S)"
    using False by simp
  ultimately show ?thesis
    using r by (rule run)
qed

lemma solve_trace_inv:
  assumes "solve fuel S x t1 = Some (oc, s, tr)" "0 < dt_min (m_opt S)"
  shows "trace_inv S t1 (s, tr)"
  using assms(1)
proof (cases rule: solve_cases)
  case error
  then show ?thesis
    by (simp add: trace_inv_def initial_state_def)
next
  case run
  from integrate_trace_inv[OF run(3) trace_inv_initial assms(2) run(2)] show ?thesis .
qed

subsection \<open>The loop ends\<close>

lemma remaining_steps_decrease:
  fixes t t1 dt dm :: real
  assumes "0 < dm" "dm \<le> dt" "t < t1" "t' = (if t1 - t \<le> dt then t1 else t + dt)"
  shows "nat \<lceil>(t1 - t') / dm\<rceil> < nat \<lceil>(t1 - t) / dm\<rceil>"
proof (cases "t1 - t \<le> dt")
  case True
  then have "t' = t1" using assms(4) by simp
  moreover have "0 < (t1 - t) / dm" using assms by simp
  then have "0 < \<lceil>(t1 - t) / dm\<rceil>" by (simp add: ceiling_less_iff)
  ultimately show ?thesis by simp
next
  case False
  then have t': "t' = t + dt" using assms(4) by simp
  have "(t1 - t') / dm = ((t1 - t) - dt) / dm"
    by (simp add: t')
  also have "\<dots> = (t1 - t) / dm - dt / dm"
    by (rule diff_divide_distrib)
  finally have "(t1 - t') / dm = (t1 - t) / dm - dt / dm" .
  moreover have "1 \<le> dt / dm" using assms by simp
  ultimately have "(t1 - t') / dm \<le> (t1 - t) / dm - 1" by linarith
  then have "\<lceil>(t1 - t') / dm\<rceil> \<le> \<lceil>(t1 - t) / dm - 1\<rceil>" by (rule ceiling_mono)
  then have le: "\<lceil>(t1 - t') / dm\<rceil> \<le> \<lceil>(t1 - t) / dm\<rceil> - 1" by simp
  have "0 < (t1 - t) / dm" using assms by simp
  then have "0 < \<lceil>(t1 - t) / dm\<rceil>" by (simp add: ceiling_less_iff)
  with le show ?thesis by linarith
qed

lemma integrate_terminates:
  assumes "0 < dt_min (m_opt S)"
  shows "nat \<lceil>(t1 - t_n s) / dt_min (m_opt S)\<rceil> + (Suc (m_max_rejections S) - rejections s) < fuel
    \<Longrightarrow> \<exists>r. integrate fuel S M t1 (s, tr) = Some r"
proof (induction fuel arbitrary: s tr)
  case 0
  then show ?case by simp
next
  case (Suc fuel)
  let ?dm = "dt_min (m_opt S)"
  show ?case
  proof (cases "t1 \<le> t_n s \<or> dt_n s < ?dm \<or> m_max_rejections S < rejections s")
    case True
    then show ?thesis by (auto simp: Let_def)
  next
    case False
    then have c: "t_n s < t1" "?dm \<le> dt_n s" "rejections s \<le> m_max_rejections S" by auto
    then have pos: "0 < dt_n s" using assms by simp
    let ?s' = "fst (attempt S M t1 s)"
    have "nat \<lceil>(t1 - t_n ?s') / ?dm\<rceil> + (Suc (m_max_rejections S) - rejections ?s')
        < nat \<lceil>(t1 - t_n s) / ?dm\<rceil> + (Suc (m_max_rejections S) - rejections s)"
      using pos c(1)
    proof (cases rule: attempt_cases[where S = S and M = M])
      case (rejected t')
      then show ?thesis using c(3) by simp
    next
      case (silent t' x')
      with remaining_steps_decrease[OF assms c(2) c(1) silent(3)] show ?thesis by simp
    next
      case (observed obs t' x')
      with remaining_steps_decrease[OF assms c(2) c(1) observed(3)] show ?thesis by simp
    qed
    with Suc.prems have "nat \<lceil>(t1 - t_n ?s') / ?dm\<rceil> + (Suc (m_max_rejections S) - rejections ?s') < fuel"
      by linarith
    from Suc.IH[OF this, of "tr @ snd (attempt S M t1 s)"] show ?thesis
      using False by (simp add: Let_def)
  qed
qed

lemma solve_terminates:
  assumes "0 < dt_min (m_opt S)"
  shows "\<exists>fuel r. solve fuel S x t1 = Some r"
proof -
  let ?M = "m_mass S empty_holder"
  let ?s = "initial_state S x"
  define fuel where "fuel = Suc (nat \<lceil>(t1 - t_n ?s) / dt_min (m_opt S)\<rceil>
      + (Suc (m_max_rejections S) - rejections ?s))"
  have "nat \<lceil>(t1 - t_n ?s) / dt_min (m_opt S)\<rceil>
      + (Suc (m_max_rejections S) - rejections ?s) < fuel"
    by (simp add: fuel_def)
  from integrate_terminates[OF assms this, of ?M "[Mass_evaluated ?M]"]
  obtain r where "integrate fuel S ?M t1 (?s, [Mass_evaluated ?M]) = Some r"
    by auto
  then have "solve fuel S x t1 = Some r \<or> solve fuel S x t1 = Some (Programmer_error, ?s, [])"
    by (simp add: solve_def Let_def)
  then show ?thesis
    by blast
qed



subsection \<open>The observer\<close>

text \<open>
  C1. Every solve ends, and in every solve with an observer the observer is invoked
  exactly once per accepted step, with the vector and time of that step (the list of
  invocations is the list of commits); each invocation comes directly after the commit of
  its step, and the step is then at the head of the history; the times of successive
  invocations increase strictly; a rejected step triggers no invocation (the invocations
  number the accepted steps, the rejections are counted apart, and no invocation follows
  anything but a commit). The step bound \<open>dt_min\<close> is taken positive.
\<close>

theorem observer_once_per_accepted_step:
  assumes "solve fuel S x t1 = Some (oc, s, tr)"
    and "0 < dt_min (m_opt S)"
    and "m_observer S = Some obs"
  shows "(\<exists>fuel' r. solve fuel' S x t1 = Some r)
    \<and> observed tr = committed tr
    \<and> observed_after_commit tr
    \<and> sorted_wrt (<) (map fst (observed tr))
    \<and> length (observed tr) = steps s
    \<and> length (rejected tr) = rejections s
    \<and> (observed tr \<noteq> [] \<longrightarrow> hd (history s) = last (observed tr))"
  using solve_trace_inv[OF assms(1,2)] assms(3) solve_terminates[OF assms(2), of x t1]
  by (simp add: trace_inv_def)

subsection \<open>The head of the history\<close>










subsection \<open>The exit code\<close>







subsection \<open>The mass matrix\<close>

lemma attempt_no_mass_evaluation: "mass_evaluations (snd (attempt S M t1 s)) = []"
  by (simp add: attempt_def Let_def split: option.splits)

lemma integrate_mass_evaluations:
  assumes "integrate fuel S M t1 (s, tr) = Some (oc, s', tr')"
  shows "mass_evaluations tr' = mass_evaluations tr"
proof -
  have "mass_evaluations (snd (s', tr')) = mass_evaluations tr"
    by (rule integrate_invariant[OF assms, where I = "\<lambda>st. mass_evaluations (snd st) = mass_evaluations tr"])
      (simp_all add: mass_evaluations_append attempt_no_mass_evaluation)
  then show ?thesis by simp
qed

lemma attempt_newton_cong:
  assumes "nw (m_rhs S) (m_jac S) M = m_newton S (m_rhs S) (m_jac S) M"
  shows "attempt (S\<lparr>m_newton := nw\<rparr>) M t1 s = attempt S M t1 s"
  by (simp add: attempt_def assms Let_def)

lemma integrate_newton_cong:
  assumes "nw (m_rhs S) (m_jac S) M = m_newton S (m_rhs S) (m_jac S) M"
  shows "integrate fuel (S\<lparr>m_newton := nw\<rparr>) M t1 st = integrate fuel S M t1 st"
  using attempt_newton_cong[of nw S M t1, OF assms]
  by (induction fuel arbitrary: st) (simp_all add: Let_def)

text \<open>
  C7. The mass-matrix callback receives only a holder (its type has neither a state
  vector nor a time). In a solve that begins to integrate it is invoked once, on an empty
  holder; the matrix is the same for every vector, end time and number of attempts; and
  the Newton iterator is only ever given that one matrix, whether singular or not: a
  Newton iterator that agrees with the solver's on that matrix gives the same solve.
\<close>

theorem mass_matrix_produced_once_and_cached:
  assumes "solve fuel S x t1 = Some (oc, s, tr)" and "oc \<noteq> Programmer_error"
  shows "mass_evaluations tr = [m_mass S empty_holder]
    \<and> (\<forall>fuel' x' t1' oc' s' tr'. solve fuel' S x' t1' = Some (oc', s', tr') \<and> oc' \<noteq> Programmer_error
          \<longrightarrow> mass_evaluations tr' = mass_evaluations tr)
    \<and> (\<forall>nw. nw (m_rhs S) (m_jac S) (m_mass S empty_holder)
              = m_newton S (m_rhs S) (m_jac S) (m_mass S empty_holder)
          \<longrightarrow> solve fuel (S\<lparr>m_newton := nw\<rparr>) x t1 = solve fuel S x t1)"
proof -
  have once: "mass_evaluations tr' = [m_mass S empty_holder]"
    if "solve fuel' S x' t1' = Some (oc', s', tr')" "oc' \<noteq> Programmer_error"
    for fuel' x' t1' oc' s' tr'
    using that(1)
  proof (cases rule: solve_cases)
    case error
    then show ?thesis using that(2) by simp
  next
    case run
    from integrate_mass_evaluations[OF run(3)] show ?thesis by simp
  qed
  have cached: "solve fuel (S\<lparr>m_newton := nw\<rparr>) x t1 = solve fuel S x t1"
    if "nw (m_rhs S) (m_jac S) (m_mass S empty_holder)
              = m_newton S (m_rhs S) (m_jac S) (m_mass S empty_holder)" for nw
    using integrate_newton_cong[of nw S "m_mass S empty_holder" fuel t1, OF that]
    by (simp add: solve_def Let_def initial_state_def)
  from once[OF assms] once cached show ?thesis
    by (metis (no_types, lifting))
qed

subsection \<open>The start time\<close>

lemma integrate_extends_events:
  assumes "integrate fuel S M t1 (s, tr) = Some (oc, s', tr')"
  shows "\<exists>later. tr' = tr @ later"
proof -
  have "\<exists>later. snd (s', tr') = tr @ later"
    by (rule integrate_invariant[OF assms, where I = "\<lambda>st. \<exists>later. snd st = tr @ later"]) auto
  then show ?thesis by simp
qed

lemma first_attempt_time:
  assumes "0 < dt_n s" "t_n s < t1"
  shows "attempt_times (snd (attempt S M t1 s))
     = [if t1 - t_n s \<le> dt_n s then t1 else t_n s + dt_n s]"
  using assms by (cases rule: attempt_cases[where S = S and M = M]) simp_all

text \<open>
  C8. The start time defaults to 0 in the options record, and a solve starts from the
  \<open>t0\<close> of the options of the solver object: the first attempted step goes from
  \<open>t0\<close> by \<open>dt_init\<close> (or to \<open>t1\<close>, if that is nearer), and every attempted step
  ends after \<open>t0\<close> and not after \<open>t1\<close>. The call itself takes the vector and \<open>t1\<close>.
\<close>

theorem integration_starts_at_t0:
  assumes "solve fuel S x t1 = Some (oc, s, tr)"
    and "oc \<noteq> Programmer_error"
    and "0 < dt_min (m_opt S)"
    and "dt_min (m_opt S) \<le> dt_init (m_opt S)"
    and "t0 (m_opt S) < t1"
  shows "t0 (SolverOptions_default rest) = 0
    \<and> t_n (initial_state S x) = t0 (m_opt S)
    \<and> attempt_times tr \<noteq> []
    \<and> hd (attempt_times tr)
        = (if t1 - t0 (m_opt S) \<le> dt_init (m_opt S) then t1 else t0 (m_opt S) + dt_init (m_opt S))
    \<and> (\<forall>t \<in> set (attempt_times tr). t0 (m_opt S) < t \<and> t \<le> t1)"
proof -
  let ?M = "m_mass S empty_holder"
  let ?s = "initial_state S x"
  let ?a = "attempt S ?M t1 ?s"
  from assms(1,2) have loop: "integrate fuel S ?M t1 (?s, [Mass_evaluated ?M]) = Some (oc, s, tr)"
    by (cases rule: solve_cases; simp)
  then obtain f where f: "fuel = Suc f"
    by (cases fuel) auto
  have init: "t_n ?s = t0 (m_opt S)" "dt_n ?s = dt_init (m_opt S)" "rejections ?s = 0"
    by (simp_all add: initial_state_def)
  have "integrate f S ?M t1 (fst ?a, [Mass_evaluated ?M] @ snd ?a) = Some (oc, s, tr)"
    using loop assms(4,5) unfolding f by (simp add: Let_def init)
  from integrate_extends_events[OF this]
  obtain later where tr: "tr = ([Mass_evaluated ?M] @ snd ?a) @ later"
    by blast
  have "attempt_times (snd ?a)
     = [if t1 - t0 (m_opt S) \<le> dt_init (m_opt S) then t1 else t0 (m_opt S) + dt_init (m_opt S)]"
    using first_attempt_time[of ?s t1 S ?M] assms(3,4,5) by (simp add: init)
  then have first: "attempt_times tr \<noteq> []" "hd (attempt_times tr)
        = (if t1 - t0 (m_opt S) \<le> dt_init (m_opt S) then t1 else t0 (m_opt S) + dt_init (m_opt S))"
    by (simp_all add: tr attempt_times_append)
  have "\<forall>t \<in> set (attempt_times tr). t0 (m_opt S) < t \<and> t \<le> t1"
    using solve_trace_inv[OF assms(1,3)] by (simp add: trace_inv_def)
  with first init(1) show ?thesis
    by (simp add: SolverOptions_default_def)
qed

subsection \<open>The default observer\<close>

lemma attempt_default_observer:
  "fst (attempt (S\<lparr>m_observer := Some observer\<rparr>) M t1 s) = fst (attempt (S\<lparr>m_observer := None\<rparr>) M t1 s)"
  "drop_observed (snd (attempt (S\<lparr>m_observer := Some observer\<rparr>) M t1 s))
     = snd (attempt (S\<lparr>m_observer := None\<rparr>) M t1 s)"
  by (simp_all add: attempt_def Let_def observer_def)

lemma integrate_default_observer:
  "map_option (\<lambda>r. (fst r, fst (snd r), drop_observed (snd (snd r))))
     (integrate fuel (S\<lparr>m_observer := Some observer\<rparr>) M t1 (s, tr))
   = integrate fuel (S\<lparr>m_observer := None\<rparr>) M t1 (s, drop_observed tr)"
proof (induction fuel arbitrary: s tr)
  case 0
  then show ?case by simp
next
  case (Suc fuel)
  show ?case
    using Suc.IH[of "fst (attempt (S\<lparr>m_observer := Some observer\<rparr>) M t1 s)"
        "tr @ snd (attempt (S\<lparr>m_observer := Some observer\<rparr>) M t1 s)"]
    by (simp add: Let_def attempt_default_observer drop_observed_append)
qed

text \<open>
  C10. The default observer returns the object and the vector as it received them, and a
  solve with the default observer is, but for the record of the invocations, the solve
  without observer: same outcome, same final state of the integrator, same commits and
  rejections.
\<close>

theorem default_observer_is_a_no_op:
  "observer u x t = (u, x)
   \<and> map_option (\<lambda>r. (fst r, fst (snd r), drop_observed (snd (snd r))))
        (solve fuel (S\<lparr>m_observer := Some observer\<rparr>) x' t1)
     = solve fuel (S\<lparr>m_observer := None\<rparr>) x' t1"
  using integrate_default_observer[of fuel S "m_mass S empty_holder" t1 "initial_state S x'"
      "[Mass_evaluated (m_mass S empty_holder)]"]
  by (simp add: observer_def solve_def Let_def initial_state_def)


section \<open>Runs of the small solver\<close>



lemma demo_run_1:
  "solve 10 (demo_solver ()) [1, 0, 0] 1 = Some
    (Reached,
     \<lparr>t_n = 1, dt_n = 1 / 2, k_n = 2, x_n = [1, 0, 0],
      history = [(1, [1, 0, 0]), (1 / 2, [1, 0, 0])], easy = 0, steps = 2,
      rejections = 0, last_rejection = failed, self = ()\<rparr>,
     [Mass_evaluated \<lparr>A = [1, 1, 0], ia = [0, 1, 2, 3], ja = [0, 1, 2]\<rparr>,
      Committed (1 / 2) [1, 0, 0], Observed (1 / 2) [1, 0, 0],
      Committed 1 [1, 0, 0], Observed 1 [1, 0, 0]])"
  by code_simp

lemma demo_run_2:
  "solve 10 (demo_solver ()) [1, 0, 0] 2 = Some
    (Aborted Step_underflow,
     \<lparr>t_n = 1, dt_n = 1 / 8, k_n = 1, x_n = [1, 0, 0],
      history = [(1, [1, 0, 0]), (1 / 2, [1, 0, 0])], easy = 0, steps = 2,
      rejections = 2, last_rejection = failed, self = ()\<rparr>,
     [Mass_evaluated \<lparr>A = [1, 1, 0], ia = [0, 1, 2, 3], ja = [0, 1, 2]\<rparr>,
      Committed (1 / 2) [1, 0, 0], Observed (1 / 2) [1, 0, 0],
      Committed 1 [1, 0, 0], Observed 1 [1, 0, 0], Rejected (3 / 2), Rejected (5 / 4)])"
  by code_simp

lemma demo_facts:
  "0 < dt_min (m_opt (demo_solver u))" "m_observer (demo_solver u) = Some observer"
  "t0 (m_opt (demo_solver u)) = 0" "dt_init (m_opt (demo_solver u)) = 1 / 2"
  "dt_min (m_opt (demo_solver u)) = 1 / 4"
  by (simp_all add: demo_solver_def demo_options_def)

theorem observer_once_per_accepted_step_witness:
  "0 < dt_min (m_opt (demo_solver ()))
   \<and> m_observer (demo_solver ()) = Some observer
   \<and> (case solve 10 (demo_solver ()) [1, 0, 0] 2 of
        None \<Rightarrow> False
      | Some r \<Rightarrow>
          observed (snd (snd r)) = [(1 / 2, [1, 0, 0]), (1, [1, 0, 0])]
        \<and> observed (snd (snd r)) = committed (snd (snd r))
        \<and> observed_after_commit (snd (snd r))
        \<and> sorted_wrt (<) (map fst (observed (snd (snd r))))
        \<and> length (observed (snd (snd r))) = steps (fst (snd r))
        \<and> rejected (snd (snd r)) = [3 / 2, 5 / 4]
        \<and> length (rejected (snd (snd r))) = rejections (fst (snd r))
        \<and> hd (history (fst (snd r))) = last (observed (snd (snd r))))"
  using observer_once_per_accepted_step[OF demo_run_2 demo_facts(1) demo_facts(2)]
  by (simp add: demo_run_2 demo_facts)





lemma demo_run_3:
  "solve 10 (demo_solver ()\<lparr>m_opt := demo_options\<lparr>t0 := 1 / 4\<rparr>\<rparr>) [1, 0, 0] 1 = Some
    (Reached,
     \<lparr>t_n = 1, dt_n = 1 / 4, k_n = 2, x_n = [1, 0, 0],
      history = [(1, [1, 0, 0]), (3 / 4, [1, 0, 0])], easy = 0, steps = 2,
      rejections = 0, last_rejection = failed, self = ()\<rparr>,
     [Mass_evaluated \<lparr>A = [1, 1, 0], ia = [0, 1, 2, 3], ja = [0, 1, 2]\<rparr>,
      Committed (3 / 4) [1, 0, 0], Observed (3 / 4) [1, 0, 0],
      Committed 1 [1, 0, 0], Observed 1 [1, 0, 0]])"
  by code_simp

theorem integration_starts_at_t0_witness:
  "t0 (SolverOptions_default demo_options) = 0
   \<and> t0 (m_opt (demo_solver ()\<lparr>m_opt := demo_options\<lparr>t0 := 1 / 4\<rparr>\<rparr>)) = 1 / 4
   \<and> (case solve 10 (demo_solver ()\<lparr>m_opt := demo_options\<lparr>t0 := 1 / 4\<rparr>\<rparr>) [1, 0, 0] 1 of
        None \<Rightarrow> False
      | Some r \<Rightarrow> hd (attempt_times (snd (snd r))) = 3 / 4
          \<and> attempt_times (snd (snd r)) = [3 / 4, 1])"
proof -
  let ?S = "demo_solver ()\<lparr>m_opt := demo_options\<lparr>t0 := 1 / 4\<rparr>\<rparr>"
  have h: "Reached \<noteq> Programmer_error" "0 < dt_min (m_opt ?S)"
    "dt_min (m_opt ?S) \<le> dt_init (m_opt ?S)" "t0 (m_opt ?S) < 1"
    by (simp_all add: demo_solver_def demo_options_def)
  have o: "t0 (m_opt ?S) = 1 / 4" "dt_init (m_opt ?S) = 1 / 2"
    by (simp_all add: demo_solver_def demo_options_def)
  from integration_starts_at_t0[OF demo_run_3 h, of demo_options]
  have "t0 (SolverOptions_default demo_options) = 0"
    "hd (attempt_times [Mass_evaluated \<lparr>A = [1, 1, 0], ia = [0, 1, 2, 3], ja = [0, 1, 2]\<rparr>,
      Committed (3 / 4) [1, 0, 0], Observed (3 / 4) [1, 0, 0],
      Committed 1 [1, 0, 0], Observed 1 [1, 0, 0]]) = 3 / 4"
    by (simp_all add: o)
  then show ?thesis
    by (simp add: demo_run_3 o)
qed

theorem mass_matrix_produced_once_and_cached_witness:
  "(case solve 10 (demo_solver ()) [1, 0, 0] 2 of
      None \<Rightarrow> False
    | Some r \<Rightarrow> fst r \<noteq> Programmer_error
        \<and> mass_evaluations (snd (snd r)) = [\<lparr>A = [1, 1, 0], ia = [0, 1, 2, 3], ja = [0, 1, 2]\<rparr>])
   \<and> (case solve 10 (demo_solver ()) [1, 0, 0] 1 of
      None \<Rightarrow> False
    | Some r \<Rightarrow> mass_evaluations (snd (snd r)) = [\<lparr>A = [1, 1, 0], ia = [0, 1, 2, 3], ja = [0, 1, 2]\<rparr>])"
proof -
  have h: "Aborted Step_underflow \<noteq> Programmer_error" "Reached \<noteq> Programmer_error"
    by simp_all
  from mass_matrix_produced_once_and_cached[OF demo_run_2 h(1)] demo_run_1 h(2)
  show ?thesis
    by (simp add: demo_run_2 demo_run_1)
qed



end
